theory Spec2Isabelle
  imports Complex_Main "HOL-Library.Word"
begin

unbundle bit_operations_syntax

section \<open>Go values\<close>

subsection \<open>Integers\<close>

text \<open>
  Go's \<open>int\<close> and \<open>int64\<close> are 64-bit two's complement integers (a 64-bit platform).
  They are modelled as \<open>int\<close>, with the wrap-around of an arithmetic result written
  out by \<open>wrap64\<close>. Go's \<open>%\<close> truncates towards zero (the remainder has the sign of
  the dividend); a zero divisor panics and is checked by the caller.
\<close>

definition wrap64 :: "int \<Rightarrow> int" where
  "wrap64 x = (x + 2 ^ 63) mod 2 ^ 64 - 2 ^ 63"

definition go_rem :: "int \<Rightarrow> int \<Rightarrow> int" where
  "go_rem a b = sgn a * (\<bar>a\<bar> mod \<bar>b\<bar>)"

text \<open>\<open>for i := range n\<close> over an integer: \<open>0, 1, ..., n - 1\<close>, nothing when \<open>n \<le> 0\<close>.\<close>

definition go_range :: "int \<Rightarrow> int list" where
  "go_range n = map int [0..<nat n]"

subsection \<open>Panics and errors\<close>

text \<open>
  A run-time panic (index out of range, integer division by zero, \<open>make\<close> with a
  negative length) is the outcome \<open>Panic\<close>; a call that returns is \<open>Ret\<close>.
  The two error values of the package are a datatype.
\<close>

datatype 'a res = Panic | Ret 'a

datatype err = OutOfSpaceErr | FailedToInsertErr

subsection \<open>Rounding to binary64\<close>

text \<open>
  A finite \<open>float64\<close> is an integer multiple \<open>m * 2 ^ (e - 52)\<close> of the unit in the last
  place of its binade, with \<open>\<bar>m\<bar> < 2 ^ 53\<close> and \<open>e \<ge> -1022\<close> (below \<open>2 ^ -1022\<close> the
  unit stays \<open>2 ^ -1074\<close>: the subnormal numbers). Every arithmetic operation of Go
  returns the exact result rounded to the nearest such number, ties to the even \<open>m\<close>.

  \<open>bitlength n\<close> is the number of binary digits of \<open>n\<close>, \<open>floor_log2 a\<close> the exponent
  \<open>e\<close> with \<open>2 ^ e \<le> a < 2 ^ (e + 1)\<close> for a positive \<open>a\<close>, \<open>ulp x\<close> the unit in the
  last place at \<open>x\<close>, \<open>rne\<close> the nearest integer with ties to even, and \<open>round_fin\<close> the
  rounding of a real, with the exponent not yet bounded above.
\<close>

fun bitlength :: "nat \<Rightarrow> nat" where
  "bitlength n = (if n = 0 then 0 else Suc (bitlength (n div 2)))"

declare bitlength.simps [simp del]

definition floor_log2 :: "real \<Rightarrow> int" where
  "floor_log2 a =
     (if 1 \<le> a then int (bitlength (nat \<lfloor>a\<rfloor>)) - 1
      else - int (bitlength (nat (\<lceil>1 / a\<rceil> - 1))))"

definition expo :: "real \<Rightarrow> int" where
  "expo x = max (floor_log2 \<bar>x\<bar>) (- 1022)"

definition ulp :: "real \<Rightarrow> real" where
  "ulp x = 2 powi (expo x - 52)"

definition rne :: "real \<Rightarrow> int" where
  "rne q =
     (let f = \<lfloor>q\<rfloor>; r = q - of_int f
      in if r < 1 / 2 then f else if 1 / 2 < r then f + 1 else if even f then f else f + 1)"

definition round_fin :: "real \<Rightarrow> real" where
  "round_fin x = (if x = 0 then 0 else of_int (rne (x / ulp x)) * ulp x)"

subsection \<open>float64\<close>

text \<open>
  A \<open>float64\<close> is a finite number (\<open>Fin x\<close>, with \<open>Fin 0\<close> the positive zero), the
  negative zero, an infinity or NaN. \<open>round64 neg x\<close> is the \<open>float64\<close> that an
  operation with the exact result \<open>x\<close> returns: \<open>x\<close> rounded to binary64, an infinity
  when the rounded magnitude reaches \<open>2 ^ 1024\<close>, and a zero with the sign of \<open>x\<close> when
  \<open>x\<close> rounds to zero; \<open>neg\<close> is the sign that the operation gives to an exact zero.
\<close>

datatype f64 = Fin real | NZero | PInf | NInf | NaN

fun fval :: "f64 \<Rightarrow> real" where
  "fval (Fin x) = x"
| "fval y = 0"

fun signbit :: "f64 \<Rightarrow> bool" where
  "signbit (Fin x) = (x < 0)"
| "signbit NZero = True"
| "signbit NInf = True"
| "signbit y = False"

definition is_inf :: "f64 \<Rightarrow> bool" where
  "is_inf x = (x = PInf \<or> x = NInf)"

definition is_zero :: "f64 \<Rightarrow> bool" where
  "is_zero x = (x = Fin 0 \<or> x = NZero)"

definition inf_of :: "bool \<Rightarrow> f64" where
  "inf_of neg = (if neg then NInf else PInf)"

definition zero_of :: "bool \<Rightarrow> f64" where
  "zero_of neg = (if neg then NZero else Fin 0)"

definition round64 :: "bool \<Rightarrow> real \<Rightarrow> f64" where
  "round64 neg x =
     (let y = round_fin x
      in if 2 ^ 1024 \<le> \<bar>y\<bar> then inf_of (x < 0)
         else if y = 0 then zero_of (x < 0 \<or> x = 0 \<and> neg)
         else Fin y)"

text \<open>
  A decimal constant of the source, such as the \<open>0.1\<close> that a caller passes for \<open>delta\<close>,
  is the \<open>float64\<close> nearest to it. \<open>float64(n)\<close> of an \<open>int\<close> rounds as well: it is exact
  up to \<open>2 ^ 53\<close> only.
\<close>

definition f64_lit :: "real \<Rightarrow> f64" where
  "f64_lit r = round64 False r"

definition int_to_f64 :: "int \<Rightarrow> f64" where
  "int_to_f64 n = round64 False (of_int n)"

text \<open>
  Conversion of a \<open>float64\<close> to \<open>int\<close> or \<open>int64\<close> truncates towards zero. For a value
  the integer type cannot hold (and for NaN and the infinities) Go leaves the result to
  the implementation; this is the amd64 one, where the conversion instruction gives the
  least 64-bit integer.
\<close>

fun f64_to_int :: "f64 \<Rightarrow> int" where
  "f64_to_int (Fin x) =
     (let t = (if 0 \<le> x then \<lfloor>x\<rfloor> else \<lceil>x\<rceil>)
      in if - (2 ^ 63) \<le> t \<and> t < 2 ^ 63 then t else - (2 ^ 63))"
| "f64_to_int NZero = 0"
| "f64_to_int y = - (2 ^ 63)"

text \<open>
  The arithmetic operators, with the special cases of IEEE 754: an operation on NaN is
  NaN, as are \<open>Inf * 0\<close>, \<open>Inf / Inf\<close>, \<open>0 / 0\<close> and \<open>Inf - Inf\<close>; the sign of a product or
  quotient is the exclusive or of the signs of its operands, also when the result is a
  zero or an infinity; a difference that is exactly zero is the positive zero, except
  \<open>(-0) - (+0)\<close>.
\<close>

definition fmul :: "f64 \<Rightarrow> f64 \<Rightarrow> f64" where
  "fmul x y =
     (if x = NaN \<or> y = NaN then NaN
      else if is_inf x \<or> is_inf y
      then (if is_zero x \<or> is_zero y then NaN else inf_of (signbit x \<noteq> signbit y))
      else round64 (signbit x \<noteq> signbit y) (fval x * fval y))"

definition fdiv :: "f64 \<Rightarrow> f64 \<Rightarrow> f64" where
  "fdiv x y =
     (if x = NaN \<or> y = NaN then NaN
      else if is_inf x then (if is_inf y then NaN else inf_of (signbit x \<noteq> signbit y))
      else if is_inf y then zero_of (signbit x \<noteq> signbit y)
      else if is_zero y
      then (if is_zero x then NaN else inf_of (signbit x \<noteq> signbit y))
      else round64 (signbit x \<noteq> signbit y) (fval x / fval y))"

definition fsub :: "f64 \<Rightarrow> f64 \<Rightarrow> f64" where
  "fsub x y =
     (if x = NaN \<or> y = NaN then NaN
      else if is_inf x then (if y = x then NaN else x)
      else if is_inf y then inf_of (\<not> signbit y)
      else round64 (signbit x \<and> \<not> signbit y) (fval x - fval y))"

text \<open>
  \<open>x > y\<close> and \<open>x <= y\<close> on \<open>float64\<close>: false whenever an operand is NaN; the two zeros
  are equal.
\<close>

definition fgt :: "f64 \<Rightarrow> f64 \<Rightarrow> bool" where
  "fgt x y =
     (x \<noteq> NaN \<and> y \<noteq> NaN \<and>
      (if x = PInf then y \<noteq> PInf
       else if x = NInf \<or> y = PInf then False
       else if y = NInf then True
       else fval y < fval x))"

definition fle :: "f64 \<Rightarrow> f64 \<Rightarrow> bool" where
  "fle x y = (x \<noteq> NaN \<and> y \<noteq> NaN \<and> \<not> fgt x y)"

text \<open>
  \<open>math.Max\<close> tests for \<open>+Inf\<close> before it tests for NaN, and \<open>math.Min\<close> for
  \<open>-Inf\<close> before NaN, as the package documents its special cases; of two zeros,
  \<open>Max\<close> returns the positive one and \<open>Min\<close> the negative one. \<open>math.Floor\<close> returns a
  zero, an infinity and NaN unchanged.
\<close>

definition fmax :: "f64 \<Rightarrow> f64 \<Rightarrow> f64" where
  "fmax x y =
     (if x = PInf \<or> y = PInf then PInf
      else if x = NaN \<or> y = NaN then NaN
      else if is_zero x \<and> is_zero y then (if signbit x then y else x)
      else if fgt x y then x else y)"

definition fmin :: "f64 \<Rightarrow> f64 \<Rightarrow> f64" where
  "fmin x y =
     (if x = NInf \<or> y = NInf then NInf
      else if x = NaN \<or> y = NaN then NaN
      else if is_zero x \<and> is_zero y then (if signbit x then x else y)
      else if fgt y x then x else y)"

fun ffloor :: "f64 \<Rightarrow> f64" where
  "ffloor (Fin x) = Fin (of_int \<lfloor>x\<rfloor>)"
| "ffloor y = y"

text \<open>
  \<open>math.Log2\<close> and \<open>math.Pow\<close> are library routines that are not part of this
  repository and are not correctly rounded. What the package \<open>math\<close> fixes is modelled:
  the special cases (\<open>Log2\<close> is \<open>-Inf\<close> at a zero, NaN below zero, \<open>+Inf\<close> at \<open>+Inf\<close>;
  \<open>Pow(2, 0) = 1\<close>, \<open>Pow(2, +Inf) = +Inf\<close>, \<open>Pow(2, -Inf) = 0\<close>), that \<open>Log2\<close> of a
  power of two is its exponent exactly (\<open>Log2\<close> tests for the fraction \<open>0.5\<close> of \<open>Frexp\<close>
  and returns the exponent), and that \<open>Pow(2, y)\<close> at an integer \<open>y\<close> is the power of two
  (the routine multiplies powers of two only and scales by \<open>Ldexp\<close>, which rounds a
  subnormal result and overflows to \<open>+Inf\<close>). At every other argument the result is a
  parameter of the model: \<open>Log2_at ml x\<close> is the \<open>float64\<close> that \<open>math.Log2\<close> returns at
  a positive finite \<open>x\<close> that is not a power of two (it is finite there), and \<open>Pow2_at ml y\<close>
  the \<open>float64\<close> that \<open>math.Pow(2, y)\<close> returns at a finite \<open>y\<close> that is not an integer.
\<close>

record mathlib =
  Log2_at :: "real \<Rightarrow> real"
  Pow2_at :: "real \<Rightarrow> f64"

fun flog2 :: "mathlib \<Rightarrow> f64 \<Rightarrow> f64" where
  "flog2 ml (Fin x) =
     (if x = 0 then NInf
      else if x < 0 then NaN
      else if x = 2 powi floor_log2 x then Fin (of_int (floor_log2 x))
      else Fin (Log2_at ml x))"
| "flog2 ml NZero = NInf"
| "flog2 ml PInf = PInf"
| "flog2 ml NInf = NaN"
| "flog2 ml NaN = NaN"

text \<open>\<open>math.Pow(2, y)\<close>, the only base the package uses.\<close>

fun fpow2 :: "mathlib \<Rightarrow> f64 \<Rightarrow> f64" where
  "fpow2 ml (Fin y) =
     (if y = of_int \<lfloor>y\<rfloor> then round64 False (2 powi \<lfloor>y\<rfloor>) else Pow2_at ml y)"
| "fpow2 ml NZero = Fin 1"
| "fpow2 ml PInf = PInf"
| "fpow2 ml NInf = Fin 0"
| "fpow2 ml NaN = NaN"

text \<open>
  A library to run the model with: \<open>Log2\<close> truncated to an integer and \<open>Pow(2, y)\<close>
  at the integer part of \<open>y\<close>. It stands for the routines of the runtime wherever a
  statement about every library is applied to one.
\<close>

definition coarse_mathlib :: mathlib where
  "coarse_mathlib =
     \<lparr>Log2_at = (\<lambda>x. of_int (floor_log2 x)), Pow2_at = (\<lambda>y. round64 False (2 powi \<lfloor>y\<rfloor>))\<rparr>"

section \<open>The key hasher\<close>

text \<open>
  A key is an \<open>int\<close> or a \<open>string\<close> (the constraint \<open>ValidKey\<close> also lists \<open>[]byte\<close>,
  which \<open>HashKey\<close> has a case for). A Go string is a sequence of bytes, as a HOL
  \<open>string\<close> is.

  \<open>HashKey\<close> declares a fresh \<open>maphash.Hash\<close> on every call and never sets its seed. The
  package \<open>hash/maphash\<close> documents that such a zero \<open>Hash\<close> chooses a random seed for
  itself when it is first written to or summed. The seed drawn by a call is therefore an
  explicit argument of the model, and the hash function of the runtime, which is not part
  of this repository, is the parameter \<open>mh\<close>: \<open>mh s b\<close> is what \<open>Sum64\<close> returns for a
  \<open>Hash\<close> with seed \<open>s\<close> after the bytes \<open>b\<close> were written.
\<close>

datatype key = KBytes string | KInt int | KStr string

type_synonym maphash = "64 word \<Rightarrow> string \<Rightarrow> 64 word"

fun digits :: "nat \<Rightarrow> string" where
  "digits n =
     (if n < 10 then [char_of (48 + n)]
      else digits (n div 10) @ [char_of (48 + n mod 10)])"

declare digits.simps [simp del]

text \<open>\<open>strconv.Itoa\<close>: the decimal text of an integer.\<close>

definition Itoa :: "int \<Rightarrow> string" where
  "Itoa i = (if i < 0 then CHR ''-'' # digits (nat (- i)) else digits (nat i))"

definition HashKey :: "maphash \<Rightarrow> 64 word \<Rightarrow> key \<Rightarrow> 64 word" where
  "HashKey mh seed k =
     mh seed (case k of KBytes v \<Rightarrow> v | KInt v \<Rightarrow> Itoa v | KStr v \<Rightarrow> v)"

section \<open>The table\<close>

text \<open>
  An \<open>entry\<close> is a key with its value; a slot of a level is a pointer to an entry or
  \<open>nil\<close>, an \<open>option\<close> here. Entries are never written after they are created, so the
  pointers need no store.
\<close>

type_synonym 'v entry = "key \<times> 'v"

record 'v HashTable =
  capacity :: int
  delta :: f64
  items :: int
  levels :: "'v entry option list list"
  occupanciesByLevel :: "int list"
  c :: f64

subsection \<open>Construction\<close>

text \<open>
  The first loop of \<open>clear\<close>: one size for every index of \<open>range int(numLevels - 1)\<close>,
  with \<open>remaining\<close> threaded through.
\<close>

primrec sizesLoop :: "mathlib \<Rightarrow> f64 \<Rightarrow> f64 \<Rightarrow> int list \<Rightarrow> int list" where
  "sizesLoop ml numLevels remaining [] = []"
| "sizesLoop ml numLevels remaining (i # is) =
     (let size =
            fmax (Fin 1) (ffloor (fdiv remaining (fpow2 ml (fsub numLevels (int_to_f64 i)))))
      in f64_to_int size # sizesLoop ml numLevels (fsub remaining size) is)"

text \<open>
  The second loop of \<open>clear\<close>: \<open>ht.levels[i] = make([]*entry, s)\<close> for every computed
  size. \<open>make\<close> panics on a negative length and the assignment on an index out of range.
\<close>

primrec allocLevels ::
  "nat \<Rightarrow> int list \<Rightarrow> 'v entry option list list \<Rightarrow> 'v entry option list list res" where
  "allocLevels i [] lv = Ret lv"
| "allocLevels i (s # ss) lv =
     (if s < 0 \<or> length lv \<le> i then Panic
      else allocLevels (Suc i) ss (lv[i := replicate (nat s) None]))"

definition clear :: "mathlib \<Rightarrow> 'v HashTable \<Rightarrow> 'v HashTable res" where
  "clear ml ht =
     (let numLevels = fmax (Fin 1) (ffloor (flog2 ml (int_to_f64 (capacity ht))));
          remaining = int_to_f64 (capacity ht);
          sizes = sizesLoop ml numLevels remaining
                    (go_range (f64_to_int (fsub numLevels (Fin 1))));
          n = f64_to_int numLevels
      in if n < 0 then Panic
         else (case allocLevels 0 sizes (replicate (nat n) []) of
                 Panic \<Rightarrow> Panic
               | Ret lv \<Rightarrow> Ret (ht\<lparr>levels := lv, occupanciesByLevel := replicate (nat n) 0\<rparr>)))"

definition NewHashTable :: "mathlib \<Rightarrow> int \<Rightarrow> f64 \<Rightarrow> 'v HashTable res" where
  "NewHashTable ml cap dl =
     clear ml \<lparr>capacity = cap, delta = dl, items = 0, levels = [],
               occupanciesByLevel = [], c = Fin 4\<rparr>"

text \<open>
  \<open>maxLen\<close>: the product \<open>ht.delta * float64(ht.capacity)\<close> is a \<open>float64\<close> product,
  rounded, of the rounded conversion of the capacity.
\<close>

definition maxLen :: "'v HashTable \<Rightarrow> int" where
  "maxLen ht =
     wrap64 (capacity ht - f64_to_int (fmul (delta ht) (int_to_f64 (capacity ht))))"

subsection \<open>The probe sequence\<close>

text \<open>
  \<open>probe\<close> hashes the key (with the seed this call draws), keeps the low 32 bits, adds
  \<open>j * j\<close> in \<open>int64\<close> and takes the remainder by the level size.
\<close>

definition probe :: "maphash \<Rightarrow> 64 word \<Rightarrow> key \<Rightarrow> int \<Rightarrow> int \<Rightarrow> int res" where
  "probe mh seed k j sz =
     (let masked = HashKey mh seed k AND 0xFFFFFFFF
      in if sz = 0 then Panic
         else Ret (go_rem (wrap64 (wrap64 (uint masked) + wrap64 (j * j))) sz))"

subsection \<open>Load and probe limit of a level\<close>

text \<open>
  The three lines that \<open>Insert\<close> and \<open>Get\<close> share: the free fraction of a level from
  its size and occupancy, and the probe limit from that fraction.
\<close>

definition loadOf :: "int \<Rightarrow> int \<Rightarrow> f64" where
  "loadOf sz occ = fdiv (int_to_f64 (wrap64 (sz - occ))) (int_to_f64 sz)"

definition probeLimitOf :: "mathlib \<Rightarrow> f64 \<Rightarrow> f64 \<Rightarrow> f64 \<Rightarrow> int" where
  "probeLimitOf ml cc dl load =
     f64_to_int (fmax (Fin 1)
       (fmul cc (fmin (flog2 ml (fmax (fdiv (Fin 1) load) (Fin 0)))
                      (flog2 ml (fdiv (Fin 1) dl)))))"

definition probeLimit :: "mathlib \<Rightarrow> 'v HashTable \<Rightarrow> nat \<Rightarrow> int" where
  "probeLimit ml ht i =
     probeLimitOf ml (c ht) (delta ht)
       (loadOf (int (length (levels ht ! i))) (occupanciesByLevel ht ! i))"

subsection \<open>Insert\<close>

text \<open>
  The probing loop of \<open>Insert\<close> over the attempts \<open>js\<close> of one level \<open>l\<close>: the index of
  the first empty slot probed, if any. \<open>sd j\<close> is the seed that the hasher draws at
  attempt \<open>j\<close>.
\<close>

primrec probeEmpty ::
  "maphash \<Rightarrow> (nat \<Rightarrow> 64 word) \<Rightarrow> key \<Rightarrow> 'v entry option list \<Rightarrow> int list \<Rightarrow> nat option res"
where
  "probeEmpty mh sd k l [] = Ret None"
| "probeEmpty mh sd k l (j # js) =
     (case probe mh (sd (nat j)) k j (int (length l)) of
        Panic \<Rightarrow> Panic
      | Ret idx \<Rightarrow>
          if idx < 0 \<or> int (length l) \<le> idx then Panic
          else (case l ! nat idx of
                  None \<Rightarrow> Ret (Some (nat idx))
                | Some e \<Rightarrow> probeEmpty mh sd k l js))"

text \<open>Placing an entry: the slot, the occupancy of the level and \<open>items\<close>.\<close>

definition place :: "'v HashTable \<Rightarrow> nat \<Rightarrow> nat \<Rightarrow> key \<Rightarrow> 'v \<Rightarrow> 'v HashTable" where
  "place ht i idx k v =
     ht\<lparr>levels := (levels ht)[i := (levels ht ! i)[idx := Some (k, v)]],
        occupanciesByLevel :=
          (occupanciesByLevel ht)[i := wrap64 (occupanciesByLevel ht ! i + 1)],
        items := wrap64 (items ht + 1)\<rparr>"

definition tryLevel ::
  "mathlib \<Rightarrow> maphash \<Rightarrow> (nat \<Rightarrow> 64 word) \<Rightarrow> key \<Rightarrow> 'v \<Rightarrow> 'v HashTable \<Rightarrow> nat
     \<Rightarrow> 'v HashTable option res"
where
  "tryLevel ml mh sd k v ht i =
     (case probeEmpty mh sd k (levels ht ! i) (go_range (probeLimit ml ht i)) of
        Panic \<Rightarrow> Panic
      | Ret None \<Rightarrow> Ret None
      | Ret (Some idx) \<Rightarrow> Ret (Some (place ht i idx k v)))"

text \<open>
  The body of the loop over the levels, for level \<open>i\<close>: \<open>Ret (Some ht')\<close> when the entry
  was placed (the call returns \<open>nil\<close>), \<open>Ret None\<close> when the loop goes on to the next
  level.
\<close>

definition insertLevel ::
  "mathlib \<Rightarrow> maphash \<Rightarrow> (nat \<Rightarrow> 64 word) \<Rightarrow> key \<Rightarrow> 'v \<Rightarrow> 'v HashTable \<Rightarrow> nat
     \<Rightarrow> 'v HashTable option res"
where
  "insertLevel ml mh sd k v ht i =
     (if length (occupanciesByLevel ht) \<le> i then Panic
      else
        let size = int (length (levels ht ! i));
            load = loadOf size (occupanciesByLevel ht ! i)
        in if int i < int (length (levels ht)) - 1 then
             (if length (occupanciesByLevel ht) \<le> i + 1 then Panic
              else
                let nextLevel = levels ht ! (i + 1);
                    nextOccupancy = occupanciesByLevel ht ! (i + 1);
                    nextFreeOnLevel = int_to_f64 (wrap64 (int (length nextLevel) - nextOccupancy));
                    nextLoad = (if 0 < length nextLevel
                                then fdiv nextFreeOnLevel (int_to_f64 (int (length nextLevel)))
                                else Fin 0)
                in if fgt load (fdiv (delta ht) (Fin 2)) \<and> fgt nextLoad (Fin (1 / 4))
                   then tryLevel ml mh sd k v ht i
                   else if fle load (fdiv (delta ht) (Fin 2)) then Ret None
                   else if fle nextLoad (Fin (1 / 4)) then tryLevel ml mh sd k v ht i
                   else Ret None)
           else tryLevel ml mh sd k v ht i)"

primrec insertLevels ::
  "mathlib \<Rightarrow> maphash \<Rightarrow> (nat \<Rightarrow> nat \<Rightarrow> 64 word) \<Rightarrow> key \<Rightarrow> 'v \<Rightarrow> 'v HashTable \<Rightarrow> nat list
     \<Rightarrow> (err option \<times> 'v HashTable) res"
where
  "insertLevels ml mh sd k v ht [] = Ret (Some FailedToInsertErr, ht)"
| "insertLevels ml mh sd k v ht (i # is) =
     (case insertLevel ml mh (sd i) k v ht i of
        Panic \<Rightarrow> Panic
      | Ret (Some ht') \<Rightarrow> Ret (None, ht')
      | Ret None \<Rightarrow> insertLevels ml mh sd k v ht is)"

text \<open>
  \<open>Insert\<close> returns the error (\<open>None\<close> for \<open>nil\<close>) and the table after the call.
  \<open>sd i j\<close> is the seed drawn by the hasher at attempt \<open>j\<close> on level \<open>i\<close>.
\<close>

definition Insert ::
  "mathlib \<Rightarrow> maphash \<Rightarrow> (nat \<Rightarrow> nat \<Rightarrow> 64 word) \<Rightarrow> key \<Rightarrow> 'v \<Rightarrow> 'v HashTable
     \<Rightarrow> (err option \<times> 'v HashTable) res"
where
  "Insert ml mh sd k v ht =
     (if maxLen ht \<le> items ht then Ret (Some OutOfSpaceErr, ht)
      else insertLevels ml mh sd k v ht [0..<length (levels ht)])"

subsection \<open>Get\<close>

text \<open>
  The probing loop of \<open>Get\<close> on one level: the value of the first probed slot that holds
  the key. \<open>Get\<close> returns \<open>Some v\<close> for \<open>(v, true)\<close> and \<open>None\<close> for the zero value with
  \<open>false\<close>.
\<close>

primrec probeKey ::
  "maphash \<Rightarrow> (nat \<Rightarrow> 64 word) \<Rightarrow> key \<Rightarrow> 'v entry option list \<Rightarrow> int list \<Rightarrow> 'v option res"
where
  "probeKey mh sd k l [] = Ret None"
| "probeKey mh sd k l (j # js) =
     (case probe mh (sd (nat j)) k j (int (length l)) of
        Panic \<Rightarrow> Panic
      | Ret idx \<Rightarrow>
          if idx < 0 \<or> int (length l) \<le> idx then Panic
          else (case l ! nat idx of
                  None \<Rightarrow> probeKey mh sd k l js
                | Some e \<Rightarrow> if fst e = k then Ret (Some (snd e))
                            else probeKey mh sd k l js))"

primrec getLevels ::
  "mathlib \<Rightarrow> maphash \<Rightarrow> (nat \<Rightarrow> nat \<Rightarrow> 64 word) \<Rightarrow> key \<Rightarrow> 'v HashTable \<Rightarrow> nat list
     \<Rightarrow> 'v option res"
where
  "getLevels ml mh sd k ht [] = Ret None"
| "getLevels ml mh sd k ht (i # is) =
     (if length (occupanciesByLevel ht) \<le> i then Panic
      else (case probeKey mh (sd i) k (levels ht ! i) (go_range (probeLimit ml ht i)) of
              Panic \<Rightarrow> Panic
            | Ret (Some v) \<Rightarrow> Ret (Some v)
            | Ret None \<Rightarrow> getLevels ml mh sd k ht is))"

definition Get ::
  "mathlib \<Rightarrow> maphash \<Rightarrow> (nat \<Rightarrow> nat \<Rightarrow> 64 word) \<Rightarrow> key \<Rightarrow> 'v HashTable \<Rightarrow> 'v option res"
where
  "Get ml mh sd k ht = getLevels ml mh sd k ht [0..<length (levels ht)]"

subsection \<open>Sequences of calls\<close>

text \<open>
  A client of the table calls \<open>Insert\<close> and \<open>Get\<close> in some order; each call comes with
  the seeds that the hasher draws during it. \<open>run\<close> is the table after the calls, or
  \<open>Panic\<close> if one of them panics.
\<close>

datatype 'v operation =
  OpInsert key 'v "nat \<Rightarrow> nat \<Rightarrow> 64 word"
| OpGet key "nat \<Rightarrow> nat \<Rightarrow> 64 word"

fun run :: "mathlib \<Rightarrow> maphash \<Rightarrow> 'v HashTable \<Rightarrow> 'v operation list \<Rightarrow> 'v HashTable res" where
  "run ml mh ht [] = Ret ht"
| "run ml mh ht (OpInsert k v sd # ops) =
     (case Insert ml mh sd k v ht of Panic \<Rightarrow> Panic | Ret (e, ht') \<Rightarrow> run ml mh ht' ops)"
| "run ml mh ht (OpGet k sd # ops) =
     (case Get ml mh sd k ht of Panic \<Rightarrow> Panic | Ret r \<Rightarrow> run ml mh ht ops)"

section \<open>Rounding to binary64: properties\<close>

lemma bitlength_bounds: "0 < n \<Longrightarrow> 2 ^ (bitlength n - 1) \<le> n \<and> n < 2 ^ bitlength n"
proof (induction n rule: bitlength.induct)
  case (1 n)
  show ?case
  proof (cases "n div 2 = 0")
    case True
    with "1.prems" have "n = 1" by (simp add: div_eq_0_iff) 
    moreover have "bitlength (Suc 0) = Suc 0"
      by (simp add: bitlength.simps[of "Suc 0"] bitlength.simps[of 0])
    ultimately show ?thesis by simp
  next
    case False
    then have pos: "0 < n div 2" by simp
    from "1.prems" have n0: "n \<noteq> 0" by simp
    let ?b = "bitlength (n div 2)"
    from "1.IH"[OF n0 pos] have ih: "2 ^ (?b - 1) \<le> n div 2" "n div 2 < 2 ^ ?b" by auto
    have b1: "0 < ?b" using pos by (simp add: bitlength.simps[of "n div 2"])
    have bn: "bitlength n = Suc ?b" using n0 by (simp add: bitlength.simps[of n])
    have "(2::nat) ^ ?b = 2 * 2 ^ (?b - 1)" using b1 by (cases ?b) simp_all
    also have "\<dots> \<le> 2 * (n div 2)" using ih(1) by simp
    also have "\<dots> \<le> n" by simp
    finally have lo: "2 ^ ?b \<le> n" .
    have "n < 2 * (n div 2) + 2" by presburger
    moreover have "n div 2 + 1 \<le> 2 ^ ?b" using ih(2) by simp
    ultimately have hi: "n < 2 * 2 ^ ?b" by linarith
    show ?thesis using lo hi by (simp add: bn)
  qed
qed

lemma powi_nat: "(2::real) powi int n = 2 ^ n"
  by simp

lemma powi_neg_nat: "(2::real) powi (- int n) = 1 / 2 ^ n"
  by (simp add: power_int_minus field_simps)

lemma powi_pos [simp]: "0 < (2::real) powi k"
  by (simp add: zero_less_power_int)

lemma powi_mono: "k \<le> l \<Longrightarrow> (2::real) powi k \<le> 2 powi l"
  by (rule power_int_increasing) simp_all

lemma powi_strict_mono: "k < l \<Longrightarrow> (2::real) powi k < 2 powi l"
  by (rule power_int_strict_increasing) simp_all

lemma powi_Suc: "(2::real) powi (k + 1) = 2 * 2 powi k"
  by (simp add: power_int_add)

lemma floor_log2_bounds:
  assumes "0 < a"
  shows "2 powi (floor_log2 a) \<le> a" "a < 2 powi (floor_log2 a + 1)"
proof -
  have "2 powi (floor_log2 a) \<le> a \<and> a < 2 powi (floor_log2 a + 1)"
  proof (cases "1 \<le> a")
    case True
    let ?n = "nat \<lfloor>a\<rfloor>"
    have n: "0 < ?n" using True by simp
    let ?b = "bitlength ?n"
    from bitlength_bounds[OF n] have b: "2 ^ (?b - 1) \<le> ?n" "?n < 2 ^ ?b" by auto
    have b1: "0 < ?b" using n by (simp add: bitlength.simps[of ?n])
    have fl: "floor_log2 a = int (?b - 1)" using True b1 by (simp add: floor_log2_def)
    have "real (2 ^ (?b - 1)) \<le> real ?n" using b(1) by (rule of_nat_mono)
    also have "real ?n \<le> a" using True by simp
    finally have lo: "2 powi (floor_log2 a) \<le> a" by (simp add: fl)
    have "?n + 1 \<le> 2 ^ ?b" using b(2) by linarith
    then have "real (?n + 1) \<le> real (2 ^ ?b)" by (rule of_nat_mono)
    moreover have "a < real (?n + 1)" using True by simp linarith
    ultimately have "a < 2 ^ ?b" by simp
    moreover have "floor_log2 a + 1 = int ?b" using fl b1 by simp
    ultimately have hi: "a < 2 powi (floor_log2 a + 1)" by simp
    from lo hi show ?thesis by simp
  next
    case False
    then have a1: "a < 1" by simp
    let ?y = "1 / a"
    have y1: "1 < ?y" using assms a1 by simp
    let ?m = "nat (\<lceil>?y\<rceil> - 1)"
    have "2 \<le> \<lceil>?y\<rceil>" using y1 by (simp add: le_ceiling_iff) 
    then have m: "0 < ?m" by simp
    let ?b = "bitlength ?m"
    from bitlength_bounds[OF m] have b: "2 ^ (?b - 1) \<le> ?m" "?m < 2 ^ ?b" by auto
    have b1: "0 < ?b" using m by (simp add: bitlength.simps[of ?m])
    have fl: "floor_log2 a = - int ?b" using False by (simp add: floor_log2_def)
    have my: "real ?m < ?y"
    proof -
      have "real_of_int (\<lceil>?y\<rceil> - 1) < ?y" by linarith
      moreover have "real ?m = real_of_int (\<lceil>?y\<rceil> - 1)"
        using assms by (subst of_nat_nat) simp_all
      ultimately show ?thesis by simp
    qed
    have ym: "?y \<le> real (?m + 1)"
    proof -
      have "?y \<le> real_of_int \<lceil>?y\<rceil>" by linarith
      moreover have "real ?m = real_of_int (\<lceil>?y\<rceil> - 1)"
        using assms by (subst of_nat_nat) simp_all
      then have "real (?m + 1) = real_of_int \<lceil>?y\<rceil>" by simp
      ultimately show ?thesis by simp
    qed
    have "?m + 1 \<le> 2 ^ ?b" using b(2) by linarith
    then have "real (?m + 1) \<le> real (2 ^ ?b)" by (rule of_nat_mono)
    with ym have "?y \<le> 2 ^ ?b" by simp
    then have "1 / 2 ^ ?b \<le> a" using assms by (simp add: field_simps)
    then have lo: "2 powi (floor_log2 a) \<le> a" by (simp add: fl powi_neg_nat)
    have "real (2 ^ (?b - 1)) \<le> real ?m" using b(1) by (rule of_nat_mono)
    then have "(2::real) ^ (?b - 1) \<le> real ?m" by (simp only: of_nat_power of_nat_numeral)
    with my have "2 ^ (?b - 1) < ?y" by linarith
    then have "a < 1 / 2 ^ (?b - 1)" using assms by (simp add: field_simps)
    moreover have "floor_log2 a + 1 = - int (?b - 1)" using fl b1 by simp
    ultimately have hi: "a < 2 powi (floor_log2 a + 1)" by (simp add: powi_neg_nat)
    from lo hi show ?thesis by simp
  qed
  then show "2 powi (floor_log2 a) \<le> a" "a < 2 powi (floor_log2 a + 1)" by auto
qed

lemma floor_log2_unique:
  assumes "0 < a" "2 powi k \<le> a" "a < 2 powi (k + 1)"
  shows "floor_log2 a = k"
proof (rule antisym)
  show "floor_log2 a \<le> k"
  proof (rule ccontr)
    assume "\<not> floor_log2 a \<le> k"
    then have "k + 1 \<le> floor_log2 a" by simp
    then have "(2::real) powi (k + 1) \<le> 2 powi (floor_log2 a)" by (rule powi_mono)
    with floor_log2_bounds(1)[OF assms(1)] assms(3) show False by linarith
  qed
  show "k \<le> floor_log2 a"
  proof (rule ccontr)
    assume "\<not> k \<le> floor_log2 a"
    then have "floor_log2 a + 1 \<le> k" by simp
    then have "(2::real) powi (floor_log2 a + 1) \<le> 2 powi k" by (rule powi_mono)
    with floor_log2_bounds(2)[OF assms(1)] assms(2) show False by linarith
  qed
qed

lemma floor_log2_mono:
  assumes "0 < a" "a \<le> b"
  shows "floor_log2 a \<le> floor_log2 b"
proof (rule ccontr)
  assume "\<not> floor_log2 a \<le> floor_log2 b"
  then have "floor_log2 b + 1 \<le> floor_log2 a" by simp
  then have "(2::real) powi (floor_log2 b + 1) \<le> 2 powi (floor_log2 a)" by (rule powi_mono)
  moreover have "0 < b" using assms by linarith
  ultimately show False
    using floor_log2_bounds(1)[OF assms(1)] floor_log2_bounds(2)[of b] assms(2) by linarith
qed

lemma rne_of_int [simp]: "rne (of_int n) = n"
  by (simp add: rne_def)

lemma rne_floor_le: "\<lfloor>q\<rfloor> \<le> rne q"
  by (simp add: rne_def Let_def)

lemma rne_le_ceiling: "rne q \<le> \<lfloor>q\<rfloor> + 1"
  by (simp add: rne_def Let_def)

lemma rne_mono:
  assumes "q \<le> q'"
  shows "rne q \<le> rne q'"
proof (cases "\<lfloor>q\<rfloor> = \<lfloor>q'\<rfloor>")
  case True
  have "q - of_int \<lfloor>q\<rfloor> \<le> q' - of_int \<lfloor>q\<rfloor>" using assms by simp
  then show ?thesis unfolding rne_def Let_def True[symmetric] by (auto simp: True)
next
  case False
  then have "\<lfloor>q\<rfloor> < \<lfloor>q'\<rfloor>" using floor_mono[OF assms] by linarith
  then have "rne q \<le> \<lfloor>q'\<rfloor>" using rne_le_ceiling[of q] by linarith
  then show ?thesis using rne_floor_le[of q'] by linarith
qed

lemma rne_ge_int: "of_int n \<le> q \<Longrightarrow> n \<le> rne q"
  using rne_mono[of "of_int n" q] by simp

lemma rne_le_int: "q \<le> of_int n \<Longrightarrow> rne q \<le> n"
  using rne_mono[of q "of_int n"] by simp

lemma rne_minus: "rne (- q) = - rne q"
proof (cases "q = of_int \<lfloor>q\<rfloor>")
  case True
  then obtain n where "q = of_int n" by metis
  then have "- q = of_int (- n)" by simp
  then show ?thesis using \<open>q = of_int n\<close> by (simp only: rne_of_int)
next
  case False
  then have c: "\<lceil>q\<rceil> = \<lfloor>q\<rfloor> + 1" by (metis ceiling_altdef of_int_floor_cancel)
  have fm: "\<lfloor>- q\<rfloor> = - \<lfloor>q\<rfloor> - 1" using c by (simp add: floor_minus)
  let ?f = "\<lfloor>q\<rfloor>"
  let ?r = "q - of_int ?f"
  have r': "- q - of_int (- ?f - 1) = 1 - ?r" by simp
  have ev: "even (- ?f - 1) \<longleftrightarrow> odd ?f" by simp
  show ?thesis
    unfolding rne_def Let_def fm r' ev by auto
qed

lemma expo_minus [simp]: "expo (- x) = expo x"
  by (simp add: expo_def)

lemma ulp_minus [simp]: "ulp (- x) = ulp x"
  by (simp add: ulp_def)

lemma ulp_pos [simp]: "0 < ulp x"
  by (simp add: ulp_def)

lemma round_fin_minus: "round_fin (- x) = - round_fin x"
  by (simp add: round_fin_def rne_minus)

lemma ulp_nonneg [simp]: "0 \<le> ulp x"
  using ulp_pos[of x] by linarith

lemma round_fin_nonneg:
  assumes "0 \<le> x"
  shows "0 \<le> round_fin x"
proof -
  have "0 \<le> x / ulp x" using assms by simp
  then have "0 \<le> rne (x / ulp x)" by (intro rne_ge_int) simp
  then have "0 \<le> real_of_int (rne (x / ulp x)) * ulp x" by simp
  then show ?thesis by (simp add: round_fin_def)
qed

lemma round_fin_zero [simp]: "round_fin 0 = 0"
  by (simp add: round_fin_def)

lemma expo_ge: "- 1022 \<le> expo x"
  by (simp add: expo_def)

lemma expo_upper:
  assumes "0 < x"
  shows "x < 2 powi (expo x + 1)"
proof -
  have "x < 2 powi (floor_log2 x + 1)" using floor_log2_bounds(2)[OF assms] .
  also have "\<dots> \<le> 2 powi (expo x + 1)" using assms by (intro powi_mono) (simp add: expo_def)
  finally show ?thesis .
qed

lemma expo_lower:
  assumes "0 < x" "- 1022 < expo x"
  shows "2 powi (expo x) \<le> x"
proof -
  have "expo x = floor_log2 x" using assms by (simp add: expo_def max_def split: if_splits)
  then show ?thesis using floor_log2_bounds(1)[OF assms(1)] by simp
qed

lemma expo_mono:
  assumes "0 < x" "x \<le> y"
  shows "expo x \<le> expo y"
  using floor_log2_mono[OF assms] assms by (simp add: expo_def max_def)

lemma powi_diff: "(2::real) powi (a - b) = 2 powi a / 2 powi b"
  by (simp add: power_int_diff)

lemma powi_scale:
  "(2::real) ^ n * 2 powi (e - int n + k) = 2 powi (e + k)"
proof -
  have "(2::real) powi (e + k) = 2 powi (int n + (e - int n + k))" by simp
  also have "\<dots> = 2 powi (int n) * 2 powi (e - int n + k)" by (rule power_int_add) simp
  finally show ?thesis by simp
qed

lemma round_fin_upper:
  assumes "0 < x"
  shows "round_fin x \<le> 2 powi (expo x + 1)"
proof -
  have "x / ulp x < 2 powi (expo x + 1) / ulp x"
    using expo_upper[OF assms] by (intro divide_strict_right_mono ulp_pos)
  also have "2 powi (expo x + 1) / ulp x = 2 powi (expo x + 1 - (expo x - 52))"
    unfolding ulp_def by (rule power_int_diff[symmetric]) simp
  also have "expo x + 1 - (expo x - 52) = 53" by simp
  also have "(2::real) powi 53 = of_int (2 ^ 53)" by simp
  finally have "rne (x / ulp x) \<le> 2 ^ 53" by (intro rne_le_int) simp
  then have "real_of_int (rne (x / ulp x)) \<le> 2 ^ 53" by (metis of_int_le_iff of_int_numeral of_int_power)
  then have "round_fin x \<le> 2 ^ 53 * ulp x"
    using assms by (simp add: round_fin_def)
  also have "2 ^ 53 * ulp x = 2 powi (expo x + 1)"
    using powi_scale[of 53 "expo x" 1] by (simp add: ulp_def)
  finally show ?thesis .
qed

lemma round_fin_lower:
  assumes "0 < x" "- 1022 < expo x"
  shows "2 powi (expo x) \<le> round_fin x"
proof -
  have "2 powi (expo x) / ulp x \<le> x / ulp x"
    using expo_lower[OF assms] by (intro divide_right_mono ulp_nonneg)
  moreover have "2 powi (expo x) / ulp x = 2 powi (expo x - (expo x - 52))"
    unfolding ulp_def by (rule power_int_diff[symmetric]) simp
  moreover have "expo x - (expo x - 52) = 52" by simp
  moreover have "(2::real) powi 52 = of_int (2 ^ 52)" by simp
  ultimately have "2 ^ 52 \<le> rne (x / ulp x)" by (intro rne_ge_int) simp
  then have "2 ^ 52 \<le> real_of_int (rne (x / ulp x))" by (metis of_int_le_iff of_int_numeral of_int_power)
  then have "2 ^ 52 * ulp x \<le> round_fin x"
    using assms by (simp add: round_fin_def)
  moreover have "2 ^ 52 * ulp x = 2 powi (expo x)"
    using powi_scale[of 52 "expo x" 0] by (simp add: ulp_def)
  ultimately show ?thesis by simp
qed

lemma round_fin_mono_pos:
  assumes "0 < x" "x \<le> y"
  shows "round_fin x \<le> round_fin y"
proof (cases "expo x = expo y")
  case True
  then have u: "ulp x = ulp y" by (simp add: ulp_def)
  have "x / ulp y \<le> y / ulp y" using assms(2) by (intro divide_right_mono ulp_nonneg)
  then have "rne (x / ulp y) \<le> rne (y / ulp y)" by (rule rne_mono)
  then have "real_of_int (rne (x / ulp y)) * ulp y \<le> real_of_int (rne (y / ulp y)) * ulp y"
    by (simp add: mult_right_mono)
  then show ?thesis using assms by (simp add: round_fin_def u)
next
  case False
  have y: "0 < y" using assms by linarith
  from False have lt: "expo x < expo y" using expo_mono[OF assms] by linarith
  then have "- 1022 < expo y" using expo_ge[of x] by linarith
  have "round_fin x \<le> 2 powi (expo x + 1)" using assms(1) by (rule round_fin_upper)
  also have "\<dots> \<le> 2 powi (expo y)" using lt by (intro powi_mono) simp
  also have "\<dots> \<le> round_fin y" using y \<open>- 1022 < expo y\<close> by (rule round_fin_lower)
  finally show ?thesis .
qed

lemma round_fin_mono:
  assumes "x \<le> y"
  shows "round_fin x \<le> round_fin y"
proof -
  consider "0 < x" | "x \<le> 0" "0 \<le> y" | "y < 0" by linarith
  then show ?thesis
  proof cases
    case 1
    then show ?thesis using assms by (rule round_fin_mono_pos)
  next
    case 2
    have "0 \<le> round_fin y" using 2(2) by (rule round_fin_nonneg)
    moreover have "0 \<le> round_fin (- x)" using 2(1) by (intro round_fin_nonneg) simp
    ultimately show ?thesis by (simp add: round_fin_minus)
  next
    case 3
    have "round_fin (- y) \<le> round_fin (- x)" using 3 assms by (intro round_fin_mono_pos) simp_all
    then show ?thesis by (simp add: round_fin_minus)
  qed
qed

lemma round_fin_exact:
  assumes "x = of_int m * 2 powi k" "\<bar>m\<bar> < 2 ^ 53" "- 1074 \<le> k"
  shows "round_fin x = x"
proof (cases "m = 0")
  case True
  with assms(1) show ?thesis by simp
next
  case False
  then have x0: "x \<noteq> 0" using assms(1) by simp
  then have ax: "0 < \<bar>x\<bar>" by simp
  let ?e = "expo x"
  have ek: "?e - 52 \<le> k"
  proof (cases "?e = - 1022")
    case True
    then show ?thesis using assms(3) by simp
  next
    case False
    then have gt: "- 1022 < expo \<bar>x\<bar>" using expo_ge[of x] by (simp add: expo_def)
    have "2 powi ?e \<le> \<bar>x\<bar>" using expo_lower[OF ax gt] by (simp add: expo_def)
    also have "\<bar>x\<bar> = real_of_int \<bar>m\<bar> * 2 powi k" by (simp add: assms(1) abs_mult)
    also have "\<dots> < 2 ^ 53 * 2 powi k"
    proof -
      have "real_of_int \<bar>m\<bar> < real_of_int (2 ^ 53)" using assms(2) by (simp only: of_int_less_iff)
      then have "real_of_int \<bar>m\<bar> < 2 ^ 53" by simp
      then show ?thesis by (intro mult_strict_right_mono) simp_all
    qed
    also have "(2::real) ^ 53 * 2 powi k = 2 powi (53 + k)" using powi_scale[of 53 53 k] by simp
    finally have "2 powi ?e < (2::real) powi (53 + k)" .
    then have "?e < 53 + k" using powi_mono[of "53 + k" ?e] by (cases "?e < 53 + k") simp_all
    then show ?thesis by simp
  qed
  define n where "n = nat (k - (?e - 52))"
  have kn: "k = (?e - 52) + int n" using ek by (simp add: n_def)
  have "2 powi k = 2 powi (?e - 52) * (2::real) powi (int n)"
    unfolding kn by (rule power_int_add) simp
  then have pk: "2 powi k = ulp x * 2 ^ n" by (simp add: ulp_def)
  have xe: "x = real_of_int m * (ulp x * 2 ^ n)"
    by (rule trans[OF assms(1)]) (simp only: pk)
  have gen: "a = real_of_int m * (u * p) \<Longrightarrow> 0 < u \<Longrightarrow> a / u = real_of_int m * p"
    for a u p :: real by simp
  have "x / ulp x = real_of_int m * 2 ^ n" by (rule gen[OF xe ulp_pos])
  also have "\<dots> = real_of_int (m * 2 ^ n)" by simp
  finally have q: "x / ulp x = real_of_int (m * 2 ^ n)" .
  have "rne (x / ulp x) = m * 2 ^ n" unfolding q by (rule rne_of_int)
  then have "round_fin x = real_of_int (m * 2 ^ n) * ulp x" using x0 by (simp add: round_fin_def)
  also have "\<dots> = real_of_int m * (ulp x * 2 ^ n)" by simp
  also have "\<dots> = x" using xe by (rule sym)
  finally show ?thesis .
qed

lemma round_fin_int:
  assumes "\<bar>n\<bar> \<le> 2 ^ 53"
  shows "round_fin (of_int n) = of_int n"
proof (cases "\<bar>n\<bar> < 2 ^ 53")
  case True
  have "real_of_int n = of_int n * 2 powi 0" by simp
  then show ?thesis using True by (rule round_fin_exact) simp
next
  case False
  with assms have "\<bar>n\<bar> = 2 ^ 53" by simp
  then have "n = 2 * 2 ^ 52 \<or> n = - (2 * 2 ^ 52)" by (simp add: abs_if split: if_splits)
  then have "\<exists>m. \<bar>m\<bar> < 2 ^ 53 \<and> real_of_int n = of_int m * 2 powi 1"
  proof
    assume "n = 2 * 2 ^ 52"
    then have "\<bar>(2::int) ^ 52\<bar> < 2 ^ 53 \<and> real_of_int n = of_int (2 ^ 52) * 2 powi 1" by simp
    then show ?thesis by blast
  next
    assume "n = - (2 * 2 ^ 52)"
    then have "\<bar>- ((2::int) ^ 52)\<bar> < 2 ^ 53 \<and> real_of_int n = of_int (- (2 ^ 52)) * 2 powi 1" by simp
    then show ?thesis by blast
  qed
  then obtain m where "\<bar>m\<bar> < 2 ^ 53" "real_of_int n = of_int m * 2 powi 1" by blast
  then show ?thesis by (intro round_fin_exact[of _ m 1]) simp_all
qed

lemma round_fin_dyadic:
  assumes "\<bar>m\<bar> < 2 ^ 53" "j \<le> 1074"
  shows "round_fin (of_int m / 2 ^ j) = of_int m / 2 ^ j"
proof -
  have "real_of_int m / 2 ^ j = of_int m * 2 powi (- int j)"
    by (simp add: powi_neg_nat)
  then show ?thesis using assms by (intro round_fin_exact[of _ m "- int j"]) simp_all
qed

lemma round_fin_powi:
  assumes "- 1074 \<le> k"
  shows "round_fin (2 powi k) = 2 powi k"
  using assms by (intro round_fin_exact[of _ 1 k]) simp_all

lemma round_fin_ge:
  assumes "a \<le> x" "round_fin a = a"
  shows "a \<le> round_fin x"
  using round_fin_mono[OF assms(1)] assms(2) by simp

lemma round_fin_le:
  assumes "x \<le> b" "round_fin b = b"
  shows "round_fin x \<le> b"
  using round_fin_mono[OF assms(1)] assms(2) by simp

lemma rne_near:
  assumes "\<bar>q - of_int m\<bar> < 1 / 2"
  shows "rne q = m"
proof -
  from assms have a: "of_int m - 1 / 2 < q" "q < of_int m + 1 / 2" by linarith+
  show ?thesis
  proof (cases "of_int m \<le> q")
    case True
    then have f: "\<lfloor>q\<rfloor> = m" using a(2) by (intro floor_unique) simp_all
    show ?thesis using a(2) by (simp add: rne_def Let_def f)
  next
    case False
    then have f: "\<lfloor>q\<rfloor> = m - 1" using a(1) by (intro floor_unique) simp_all
    show ?thesis using a(1) False by (simp add: rne_def Let_def f)
  qed
qed

lemma expo_scaled:
  assumes "2 ^ 52 \<le> \<bar>x\<bar> * 2 ^ n" "\<bar>x\<bar> * 2 ^ n < 2 ^ 53" "n \<le> 1074"
  shows "expo x = 52 - int n"
proof -
  have p: "(2::real) ^ n * 2 powi (52 - int n) = 2 powi 52" using powi_scale[of n 52 0] by simp
  have q: "(2::real) ^ n * 2 powi (52 - int n + 1) = 2 powi 53" using powi_scale[of n 52 1] by simp
  have pos: "(0::real) < 2 ^ n" by simp
  have "2 powi (52 - int n) * 2 ^ n \<le> \<bar>x\<bar> * 2 ^ n" using assms(1) p by (simp add: mult.commute)
  then have lo: "2 powi (52 - int n) \<le> \<bar>x\<bar>" using pos by (simp only: mult_le_cancel_right_pos)
  have "\<bar>x\<bar> * 2 ^ n < 2 powi (52 - int n + 1) * 2 ^ n" using assms(2) q by (simp add: mult.commute)
  then have hi: "\<bar>x\<bar> < 2 powi (52 - int n + 1)" using pos by (simp only: mult_less_cancel_right_pos)
  have "0 < \<bar>x\<bar>" using lo powi_pos[of "52 - int n"] by linarith
  then have "floor_log2 \<bar>x\<bar> = 52 - int n" using lo hi by (intro floor_log2_unique)
  then show ?thesis using assms(3) by (simp add: expo_def)
qed

lemma round_fin_near:
  assumes "2 ^ 52 \<le> \<bar>x\<bar> * 2 ^ n" "\<bar>x\<bar> * 2 ^ n < 2 ^ 53" "n \<le> 1074"
    and "\<bar>x * 2 ^ n - of_int m\<bar> < 1 / 2"
  shows "round_fin x = of_int m / 2 ^ n"
proof -
  have e: "expo x = 52 - int n" using assms(1-3) by (rule expo_scaled)
  have u: "ulp x = 1 / 2 ^ n" by (simp add: ulp_def e powi_neg_nat)
  have x0: "x \<noteq> 0" using assms(1) by auto
  have "rne (x / ulp x) = m" using assms(4) by (intro rne_near) (simp add: u)
  then show ?thesis using x0 by (simp add: round_fin_def u)
qed

lemma round64_Fin:
  assumes "round_fin x = y" "y \<noteq> 0" "\<bar>y\<bar> < 2 ^ 1024"
  shows "round64 s x = Fin y"
  using assms by (simp add: round64_def Let_def)

lemma round64_zero [simp]: "round64 s 0 = zero_of s"
  by (simp add: round64_def)

lemma int_to_f64_small:
  assumes "\<bar>n\<bar> \<le> 2 ^ 53"
  shows "int_to_f64 n = Fin (of_int n)"
proof (cases "n = 0")
  case True
  then show ?thesis by (simp add: int_to_f64_def zero_of_def)
next
  case False
  have "real_of_int \<bar>n\<bar> \<le> real_of_int (2 ^ 53)" using assms by (simp only: of_int_le_iff)
  then have "\<bar>real_of_int n\<bar> < 2 ^ 1024" by simp
  then show ?thesis unfolding int_to_f64_def
    using False round_fin_int[OF assms] by (intro round64_Fin) simp_all
qed

lemma rne_half:
  assumes "\<lfloor>q\<rfloor> = f" "q - of_int f = 1 / 2"
  shows "rne q = (if even f then f else f + 1)"
  using assms by (simp add: rne_def Let_def)

lemma rne_tie_up:
  assumes "q = of_int m - 1 / 2" "even m"
  shows "rne q = m"
proof -
  have f: "\<lfloor>q\<rfloor> = m - 1" unfolding assms(1) by (intro floor_unique) simp_all
  have r: "q - of_int (m - 1) = 1 / 2" unfolding assms(1) by simp
  show ?thesis using rne_half[OF f r] assms(2) by simp
qed

lemma rne_tie_down:
  assumes "q = of_int m + 1 / 2" "even m"
  shows "rne q = m"
proof -
  have f: "\<lfloor>q\<rfloor> = m" unfolding assms(1) by (intro floor_unique) simp_all
  have r: "q - of_int m = 1 / 2" unfolding assms(1) by simp
  show ?thesis using rne_half[OF f r] assms(2) by simp
qed

lemma rne_abs: "\<bar>rne q\<bar> = rne \<bar>q\<bar>"
proof (cases "0 \<le> q")
  case True
  then have "0 \<le> rne q" by (intro rne_ge_int) simp
  with True show ?thesis by simp
next
  case False
  then have "rne q \<le> 0" by (intro rne_le_int) simp
  with False show ?thesis by (simp add: rne_minus)
qed

lemma round64_scaled:
  assumes "2 ^ 52 \<le> \<bar>x\<bar> * 2 ^ n" "\<bar>x\<bar> * 2 ^ n < 2 ^ 53" "n \<le> 1074"
  shows "round64 s x = Fin (of_int (rne (x * 2 ^ n)) / 2 ^ n)"
proof -
  let ?m = "rne (x * 2 ^ n)"
  have e: "expo x = 52 - int n" using assms by (rule expo_scaled)
  have u: "ulp x = 1 / 2 ^ n" by (simp add: ulp_def e powi_neg_nat)
  have x0: "x \<noteq> 0" using assms(1) by auto
  have r: "round_fin x = of_int ?m / 2 ^ n" using x0 by (simp add: round_fin_def u)
  have ax: "\<bar>x * 2 ^ n\<bar> = \<bar>x\<bar> * 2 ^ n" by (simp add: abs_mult)
  have am: "\<bar>?m\<bar> = rne \<bar>x * 2 ^ n\<bar>" by (rule rne_abs)
  have "real_of_int (2 ^ 52) \<le> \<bar>x * 2 ^ n\<bar>" using assms(1) ax by simp
  then have lo: "2 ^ 52 \<le> \<bar>?m\<bar>" unfolding am by (rule rne_ge_int)
  have "\<bar>x * 2 ^ n\<bar> \<le> real_of_int (2 ^ 53)" using assms(2) ax by simp
  then have hi: "\<bar>?m\<bar> \<le> 2 ^ 53" unfolding am by (rule rne_le_int)
  have m0: "real_of_int ?m \<noteq> 0" using lo by auto
  have "real_of_int \<bar>?m\<bar> \<le> real_of_int (2 ^ 53)" using hi by (simp only: of_int_le_iff)
  then have hi': "\<bar>real_of_int ?m\<bar> \<le> 2 ^ 53" by simp
  have "\<bar>real_of_int ?m / 2 ^ n\<bar> = \<bar>real_of_int ?m\<bar> / 2 ^ n" by simp
  also have "\<dots> \<le> \<bar>real_of_int ?m\<bar> / 1" by (intro divide_left_mono) simp_all
  also have "\<dots> < 2 ^ 1024" using hi' by simp
  finally have "\<bar>real_of_int ?m / 2 ^ n\<bar> < 2 ^ 1024" .
  with r m0 show ?thesis by (intro round64_Fin) simp_all
qed

lemma int_to_f64_zero [simp]: "int_to_f64 0 = Fin 0"
  by (simp add: int_to_f64_def zero_of_def)

lemma int_to_f64_numeral [simp]:
  "numeral w \<le> (2 ^ 53 :: int) \<Longrightarrow> int_to_f64 (numeral w) = Fin (numeral w)"
  using int_to_f64_small[of "numeral w"] by simp

lemma int_to_f64_one [simp]: "int_to_f64 1 = Fin 1"
  using int_to_f64_small[of 1] by simp

section \<open>Literals and products of the examples\<close>

text \<open>
  The \<open>float64\<close> nearest to some decimal constants, and the rounded products that
  \<open>maxLen\<close> computes from them.
\<close>

lemma lit_1_10: "f64_lit (1 / 10) = Fin (3602879701896397 / 2 ^ 55)"
proof -
  have "rne (1 / 10 * 2 ^ 56) = 7205759403792794" by (rule rne_near) simp
  then have "round64 False (1 / 10) = Fin (real_of_int 7205759403792794 / 2 ^ 56)"
    using round64_scaled[of "1 / 10" 56 False] by simp
  then show ?thesis unfolding f64_lit_def by simp
qed

lemma lit_9_10: "f64_lit (9 / 10) = Fin (8106479329266893 / 2 ^ 53)"
proof -
  have "rne (9 / 10 * 2 ^ 53) = 8106479329266893" by (rule rne_near) simp
  then have "round64 False (9 / 10) = Fin (real_of_int 8106479329266893 / 2 ^ 53)"
    using round64_scaled[of "9 / 10" 53 False] by simp
  then show ?thesis unfolding f64_lit_def by simp
qed

lemma lit_7_10: "f64_lit (7 / 10) = Fin (3152519739159347 / 2 ^ 52)"
proof -
  have "rne (7 / 10 * 2 ^ 53) = 6305039478318694" by (rule rne_near) simp
  then have "round64 False (7 / 10) = Fin (real_of_int 6305039478318694 / 2 ^ 53)"
    using round64_scaled[of "7 / 10" 53 False] by simp
  then show ?thesis unfolding f64_lit_def by simp
qed

lemma lit_82_100: "f64_lit (82 / 100) = Fin (7385903388887613 / 2 ^ 53)"
proof -
  have "rne (82 / 100 * 2 ^ 53) = 7385903388887613" by (rule rne_near) simp
  then have "round64 False (82 / 100) = Fin (real_of_int 7385903388887613 / 2 ^ 53)"
    using round64_scaled[of "82 / 100" 53 False] by simp
  then show ?thesis unfolding f64_lit_def by simp
qed

lemma lit_29_100: "f64_lit (29 / 100) = Fin (5224175567749775 / 2 ^ 54)"
proof -
  have "rne (29 / 100 * 2 ^ 54) = 5224175567749775" by (rule rne_near) simp
  then have "round64 False (29 / 100) = Fin (real_of_int 5224175567749775 / 2 ^ 54)"
    using round64_scaled[of "29 / 100" 54 False] by simp
  then show ?thesis unfolding f64_lit_def by simp
qed

lemma fmul_Fin:
  "fmul (Fin a) (Fin b) = round64 ((a < 0) \<noteq> (b < 0)) (a * b)"
  by (simp add: fmul_def is_inf_def)

lemma mul_9_10: "fmul (f64_lit (9 / 10)) (int_to_f64 10) = Fin (9)"
proof -
  have a: "int_to_f64 10 = Fin 10" by simp
  have "rne (8106479329266893 / 2 ^ 53 * 10 * 2 ^ 49) = 5066549580791808" by (rule rne_near) simp_all
  then have "round64 False (8106479329266893 / 2 ^ 53 * 10) = Fin (real_of_int 5066549580791808 / 2 ^ 49)"
    using round64_scaled[of "8106479329266893 / 2 ^ 53 * 10" 49 False] by simp
  then show ?thesis unfolding lit_9_10 a fmul_Fin by simp
qed

lemma mul_7_10: "fmul (f64_lit (7 / 10)) (int_to_f64 10) = Fin (7)"
proof -
  have a: "int_to_f64 10 = Fin 10" by simp
  have "rne (3152519739159347 / 2 ^ 52 * 10 * 2 ^ 50) = 7881299347898368" by (rule rne_tie_up) simp_all
  then have "round64 False (3152519739159347 / 2 ^ 52 * 10) = Fin (real_of_int 7881299347898368 / 2 ^ 50)"
    using round64_scaled[of "3152519739159347 / 2 ^ 52 * 10" 50 False] by simp
  then show ?thesis unfolding lit_7_10 a fmul_Fin by simp
qed

lemma mul_82_100: "fmul (f64_lit (82 / 100)) (int_to_f64 150) = Fin (8655355533852671 / 2 ^ 46)"
proof -
  have a: "int_to_f64 150 = Fin 150" by simp
  have "rne (7385903388887613 / 2 ^ 53 * 150 * 2 ^ 46) = 8655355533852671" by (rule rne_near) simp_all
  then have "round64 False (7385903388887613 / 2 ^ 53 * 150) = Fin (real_of_int 8655355533852671 / 2 ^ 46)"
    using round64_scaled[of "7385903388887613 / 2 ^ 53 * 150" 46 False] by simp
  then show ?thesis unfolding lit_82_100 a fmul_Fin by simp
qed

lemma mul_29_100: "fmul (f64_lit (29 / 100)) (int_to_f64 100) = Fin (8162774324609023 / 2 ^ 48)"
proof -
  have a: "int_to_f64 100 = Fin 100" by simp
  have "rne (5224175567749775 / 2 ^ 54 * 100 * 2 ^ 48) = 8162774324609023" by (rule rne_near) simp_all
  then have "round64 False (5224175567749775 / 2 ^ 54 * 100) = Fin (real_of_int 8162774324609023 / 2 ^ 48)"
    using round64_scaled[of "5224175567749775 / 2 ^ 54 * 100" 48 False] by simp
  then show ?thesis unfolding lit_29_100 a fmul_Fin by simp
qed

lemma mul_1_10_3: "fmul (f64_lit (1 / 10)) (int_to_f64 3) = Fin (1351079888211149 / 2 ^ 52)"
proof -
  have a: "int_to_f64 3 = Fin 3" by simp
  have "rne (3602879701896397 / 2 ^ 55 * 3 * 2 ^ 54) = 5404319552844596" by (rule rne_tie_up) simp_all
  then have "round64 False (3602879701896397 / 2 ^ 55 * 3) = Fin (real_of_int 5404319552844596 / 2 ^ 54)"
    using round64_scaled[of "3602879701896397 / 2 ^ 55 * 3" 54 False] by simp
  then show ?thesis unfolding lit_1_10 a fmul_Fin by simp
qed

text \<open>
  \<open>maxLen\<close> on tables of capacity 10 with \<open>delta\<close> 0.9 and 0.7, of capacity 150 with
  \<open>delta\<close> 0.82 and of capacity 100 with \<open>delta\<close> 0.29: the rounding of the product
  decides the result (the exact products of the \<open>float64\<close> constants are just below 9, just
  below 7, just below 123 and just above 28.99).
\<close>

lemma maxLen_examples:
  "maxLen \<lparr>capacity = 10, delta = f64_lit (9 / 10), items = i, levels = lv,
           occupanciesByLevel = oc, c = cc\<rparr> = 1"
  "maxLen \<lparr>capacity = 10, delta = f64_lit (7 / 10), items = i, levels = lv,
           occupanciesByLevel = oc, c = cc\<rparr> = 3"
  "maxLen \<lparr>capacity = 150, delta = f64_lit (82 / 100), items = i, levels = lv,
           occupanciesByLevel = oc, c = cc\<rparr> = 28"
  "maxLen \<lparr>capacity = 100, delta = f64_lit (29 / 100), items = i, levels = lv,
           occupanciesByLevel = oc, c = cc\<rparr> = 72"
  "maxLen \<lparr>capacity = 3, delta = f64_lit (1 / 10), items = i, levels = lv,
           occupanciesByLevel = oc, c = cc\<rparr> = 3"
  by (simp_all only: maxLen_def HashTable.select_convs
        mul_9_10 mul_7_10 mul_82_100 mul_29_100 mul_1_10_3)
     (simp_all add: wrap64_def)

section \<open>The probe limit of an empty level\<close>

lemma go_range_nonpos: "n \<le> 0 \<Longrightarrow> go_range n = []"
  by (simp add: go_range_def)

lemma loadOf_empty_level: "loadOf 0 0 = NaN"
  by (simp add: loadOf_def wrap64_def fdiv_def is_inf_def is_zero_def)

lemma round_fin_one [simp]: "round_fin 1 = 1"
  using round_fin_int[of 1] by simp

lemma inv_delta:
  assumes "0 < d" "d \<le> 1"
  shows "fdiv (Fin 1) (Fin d) = PInf \<or> (\<exists>y. 1 \<le> y \<and> fdiv (Fin 1) (Fin d) = Fin y)"
proof -
  have "1 \<le> 1 / d" using assms by simp
  then have y: "1 \<le> round_fin (1 / d)" by (rule round_fin_ge) simp
  have "fdiv (Fin 1) (Fin d) = round64 False (1 / d)"
    using assms by (simp add: fdiv_def is_inf_def is_zero_def)
  also have "\<dots> = (if 2 ^ 1024 \<le> round_fin (1 / d) then PInf else Fin (round_fin (1 / d)))"
    using y assms by (simp add: round64_def Let_def inf_of_def)
  finally show ?thesis using y by auto
qed

lemma flog2_inv_delta:
  assumes "0 < d" "d \<le> 1"
  shows "flog2 ml (fdiv (Fin 1) (Fin d)) \<noteq> NInf \<and> flog2 ml (fdiv (Fin 1) (Fin d)) \<noteq> NaN"
  using inv_delta[OF assms] by (auto split: if_splits)

lemma probeLimitOf_NaN:
  assumes "0 < d" "d \<le> 1"
  shows "probeLimitOf ml cc (Fin d) NaN = - (2 ^ 63)"
  using flog2_inv_delta[OF assms, of ml]
  by (simp add: probeLimitOf_def fdiv_def fmax_def fmin_def fmul_def)

section \<open>The probe sequence\<close>

lemma wrap64_id: "- (2 ^ 63) \<le> x \<Longrightarrow> x < 2 ^ 63 \<Longrightarrow> wrap64 x = x"
  by (simp add: wrap64_def)

lemma masked_uint: "uint ((w :: 64 word) AND 0xFFFFFFFF) = uint w mod 2 ^ 32"
proof -
  have m: "(0xFFFFFFFF :: 64 word) = mask 32" by (simp add: mask_eq_exp_minus_1)
  have "uint (w AND mask 32) = uint (take_bit 32 w)" by (simp add: take_bit_eq_mask)
  also have "\<dots> = take_bit 32 (uint w)" by (simp add: unsigned_take_bit_eq)
  also have "\<dots> = uint w mod 2 ^ 32" by (simp add: take_bit_eq_mod)
  finally show ?thesis unfolding m .
qed

lemma go_rem_nonneg: "0 \<le> a \<Longrightarrow> 0 < b \<Longrightarrow> go_rem a b = a mod b"
  by (cases "a = 0") (simp_all add: go_rem_def)

lemma probe_value:
  assumes "0 \<le> j" "uint (HashKey mh seed k) mod 2 ^ 32 + j * j < 2 ^ 63" "0 < sz"
  shows "probe mh seed k j sz = Ret ((uint (HashKey mh seed k) mod 2 ^ 32 + j * j) mod sz)"
proof -
  let ?h = "uint (HashKey mh seed k) mod 2 ^ 32"
  have h: "0 \<le> ?h" by simp
  have jj: "0 \<le> j * j" by simp
  then have jj': "j * j < 2 ^ 63" using assms(2) h by linarith
  have w1: "wrap64 ?h = ?h" using h assms(2) jj by (intro wrap64_id) linarith+
  have w2: "wrap64 (j * j) = j * j" using jj jj' by (intro wrap64_id) linarith+
  have w3: "wrap64 (?h + j * j) = ?h + j * j" using h jj assms(2) by (intro wrap64_id) linarith+
  have "probe mh seed k j sz = Ret (go_rem (wrap64 (wrap64 ?h + wrap64 (j * j))) sz)"
    using assms(3) by (simp add: probe_def masked_uint)
  also have "go_rem (wrap64 (wrap64 ?h + wrap64 (j * j))) sz = (?h + j * j) mod sz"
    unfolding w1 w2 w3 using h jj assms(3) by (intro go_rem_nonneg) linarith+
  finally show ?thesis .
qed

text \<open>
  C9: \<open>probe\<close> returns \<open>(hash mod 2 ^ 32 + j * j) mod S\<close>, a value in \<open>[0, S)\<close>, for
  every key, every seed, every level size \<open>S > 0\<close> and every attempt \<open>j \<ge> 0\<close> for which
  the sum \<open>hash mod 2 ^ 32 + j * j\<close> fits the 64-bit integer it is computed in.
\<close>

theorem probe_formula:
  assumes "0 \<le> j" "uint (HashKey mh seed k) mod 2 ^ 32 + j * j < 2 ^ 63" "0 < sz"
  shows "\<exists>r. probe mh seed k j sz = Ret r
           \<and> r = (uint (HashKey mh seed k) mod 2 ^ 32 + j * j) mod sz \<and> 0 \<le> r \<and> r < sz"
  using probe_value[OF assms] assms(3) by simp

theorem probe_formula_witness:
  "(0::int) \<le> 3 \<and> uint (HashKey (\<lambda>s b. 5) 1 (KStr ''key1'')) mod 2 ^ 32 + 3 * 3 < (2 ^ 63 :: int)
   \<and> (0::int) < 4
   \<and> probe (\<lambda>s b. 5) 1 (KStr ''key1'') 3 4 = Ret 2"
  using probe_formula [of 3 "\<lambda>s b. 5" 1 "KStr ''key1''" 4]
  by (simp add: HashKey_def)

text \<open>
  Without that bound the formula fails: at attempt \<open>j = 3037000500\<close> the square
  \<open>j * j\<close> exceeds \<open>2 ^ 63\<close> and wraps to a negative \<open>int64\<close>, and the remainder of a
  negative dividend is negative in Go. On a level of size 7, with a hash whose low 32
  bits are zero, \<open>probe\<close> returns \<open>-5\<close> where the formula gives 4.
\<close>

theorem probe_overflow_counterexample:
  "probe (\<lambda>s b. 0) 1 (KStr ''key1'') 3037000500 7 = Ret (- 5)
   \<and> (uint (HashKey (\<lambda>s b. 0) 1 (KStr ''key1'')) mod 2 ^ 32 + 3037000500 * 3037000500) mod 7
       = (4::int)"
  by (simp add: probe_def HashKey_def wrap64_def go_rem_def)

section \<open>The key hasher\<close>

text \<open>
  C2: two calls of \<open>HashKey\<close> on the same key return the same value. The two calls do
  so when they draw the same seed; but each call makes its own \<open>maphash.Hash\<close>, whose seed
  is drawn at random, and with a hash function that depends on its seed two calls that
  draw different seeds return different values, for every key.
\<close>

theorem HashKey_seed_dependent:
  "HashKey mh s k = HashKey mh s k
   \<and> (\<exists>mh' s1 s2. HashKey mh' s1 k \<noteq> HashKey mh' s2 k)"
proof -
  have "HashKey (\<lambda>sd b. sd) 1 k \<noteq> HashKey (\<lambda>sd b. sd) 2 k"
    by (simp add: HashKey_def)
  then show ?thesis by blast
qed

section \<open>Failed insertions\<close>

lemma insertLevels_error:
  "insertLevels ml mh sd k v ht is = Ret (Some e, ht') \<Longrightarrow> e = FailedToInsertErr \<and> ht' = ht"
  by (induction "is") (auto split: res.splits option.splits)

lemma Insert_error_unchanged:
  assumes "Insert ml mh sd k v ht = Ret (Some e, ht')"
  shows "ht' = ht"
proof (cases "maxLen ht \<le> items ht")
  case True
  with assms show ?thesis by (simp add: Insert_def)
next
  case False
  with assms have "insertLevels ml mh sd k v ht [0..<length (levels ht)] = Ret (Some e, ht')"
    by (simp add: Insert_def)
  then show ?thesis by (auto dest: insertLevels_error)
qed

lemma Insert_single_empty_level:
  "Insert ml mh sd k v
        \<lparr>capacity = 3, delta = f64_lit (1 / 10), items = 0, levels = [[]],
         occupanciesByLevel = [0], c = Fin 4\<rparr>
     = Ret (Some FailedToInsertErr,
        \<lparr>capacity = 3, delta = f64_lit (1 / 10), items = 0, levels = [[]],
         occupanciesByLevel = [0], c = Fin 4\<rparr>)"
proof -
  let ?t = "\<lparr>capacity = 3, delta = f64_lit (1 / 10), items = 0, levels = [[]],
         occupanciesByLevel = [0], c = Fin 4\<rparr> :: 'a HashTable"
  have m: "maxLen ?t = 3" by (rule maxLen_examples)
  have "probeLimit ml ?t 0 = - (2 ^ 63)"
    by (simp add: probeLimit_def loadOf_empty_level lit_1_10 probeLimitOf_NaN)
  then have "tryLevel ml mh (sd 0) k v ?t 0 = Ret None"
    by (simp add: tryLevel_def go_range_nonpos)
  then have "insertLevel ml mh (sd 0) k v ?t 0 = Ret None"
    by (simp add: insertLevel_def)
  then have "insertLevels ml mh sd k v ?t [0] = Ret (Some FailedToInsertErr, ?t)"
    by simp
  then show ?thesis using m by (simp add: Insert_def)
qed

text \<open>
  C6: \<open>Insert\<close> returns \<open>OutOfSpaceErr\<close> exactly when \<open>items \<ge> maxLen\<close> holds at the call,
  and then it returns at once with the table as it was, whatever the levels hold (no
  level is read, so not even a malformed table can make the call panic).
\<close>

theorem Insert_OutOfSpace_iff:
  "((\<exists>ht'. Insert ml mh sd k v ht = Ret (Some OutOfSpaceErr, ht')) \<longleftrightarrow> maxLen ht \<le> items ht)
   \<and> (maxLen ht \<le> items ht \<longrightarrow> Insert ml mh sd k v ht = Ret (Some OutOfSpaceErr, ht))"
proof -
  have fires: "Insert ml mh sd k v ht = Ret (Some OutOfSpaceErr, ht)" if "maxLen ht \<le> items ht"
    using that by (simp add: Insert_def)
  have only: "maxLen ht \<le> items ht"
    if ret: "Insert ml mh sd k v ht = Ret (Some OutOfSpaceErr, ht')" for ht'
  proof (rule ccontr)
    assume "\<not> maxLen ht \<le> items ht"
    with ret have "insertLevels ml mh sd k v ht [0..<length (levels ht)] = Ret (Some OutOfSpaceErr, ht')"
      by (simp add: Insert_def)
    then show False by (auto dest: insertLevels_error)
  qed
  from fires only show ?thesis by blast
qed

text \<open>
  The table of capacity 10 and \<open>delta\<close> 0.9 after one insertion: \<open>maxLen\<close> is
  \<open>10 - int(0.9 * 10.0) = 10 - 9 = 1\<close> (the \<open>float64\<close> product rounds to 9; the exact
  product of the \<open>float64\<close> constant 0.9 and 10 is below 9), so the second call is refused.
\<close>

theorem Insert_OutOfSpace_iff_witness:
  "maxLen \<lparr>capacity = 10, delta = f64_lit (9 / 10), items = 1,
           levels = [[Some (KStr ''key1'', 1 :: int)], [None, None], []],
           occupanciesByLevel = [1, 0, 0], c = Fin 4\<rparr> = 1
   \<and> Insert coarse_mathlib (\<lambda>s b. s) (\<lambda>i j. 1) (KStr ''key2'') 2
        \<lparr>capacity = 10, delta = f64_lit (9 / 10), items = 1,
         levels = [[Some (KStr ''key1'', 1 :: int)], [None, None], []],
         occupanciesByLevel = [1, 0, 0], c = Fin 4\<rparr>
     = Ret (Some OutOfSpaceErr,
        \<lparr>capacity = 10, delta = f64_lit (9 / 10), items = 1,
         levels = [[Some (KStr ''key1'', 1 :: int)], [None, None], []],
         occupanciesByLevel = [1, 0, 0], c = Fin 4\<rparr>)"
proof -
  have guard: "maxLen \<lparr>capacity = 10, delta = f64_lit (9 / 10), items = 1,
           levels = [[Some (KStr ''key1'', 1 :: int)], [None, None], []],
           occupanciesByLevel = [1, 0, 0], c = Fin 4\<rparr> = 1"
    by (rule maxLen_examples)
  show ?thesis
    using guard
      Insert_OutOfSpace_iff [of coarse_mathlib "\<lambda>s b. s" "\<lambda>i j. 1" "KStr ''key2''" 2
        "\<lparr>capacity = 10, delta = f64_lit (9 / 10), items = 1,
         levels = [[Some (KStr ''key1'', 1 :: int)], [None, None], []],
         occupanciesByLevel = [1, 0, 0], c = Fin 4\<rparr>"]
    by simp
qed

text \<open>
  C7: a call of \<open>Insert\<close> that returns an error, whichever of the two, returns the table
  it was given: \<open>items\<close>, every occupancy counter and every slot are unchanged.
\<close>

theorem Insert_failure_atomic:
  assumes "Insert ml mh sd k v ht = Ret (Some e, ht')"
  shows "ht' = ht \<and> items ht' = items ht
         \<and> occupanciesByLevel ht' = occupanciesByLevel ht \<and> levels ht' = levels ht"
proof (cases "maxLen ht \<le> items ht")
  case True
  with assms show ?thesis by (simp add: Insert_def)
next
  case False
  with assms have "insertLevels ml mh sd k v ht [0..<length (levels ht)] = Ret (Some e, ht')"
    by (simp add: Insert_def)
  then show ?thesis by (auto dest: insertLevels_error)
qed

text \<open>
  A table with a single level of size 0, as \<open>NewHashTable(3, 0.1)\<close> builds it: the load
  of the level is \<open>0 / 0\<close>, the probe limit is the conversion of NaN and the loop over the
  attempts does not run, so the call returns \<open>FailedToInsertErr\<close>, and the table it was given.
\<close>

theorem Insert_failure_atomic_witness:
  "Insert coarse_mathlib (\<lambda>s b. s) (\<lambda>i j. 1) (KStr ''key1'') (1::int)
        \<lparr>capacity = 3, delta = f64_lit (1 / 10), items = 0, levels = [[]],
         occupanciesByLevel = [0], c = Fin 4\<rparr>
     = Ret (Some FailedToInsertErr,
        \<lparr>capacity = 3, delta = f64_lit (1 / 10), items = 0, levels = [[]],
         occupanciesByLevel = [0], c = Fin 4\<rparr>)
   \<and> items \<lparr>capacity = 3, delta = f64_lit (1 / 10), items = 0, levels = [[]],
         occupanciesByLevel = [0], c = Fin 4 :: f64\<rparr> = 0"
proof -
  have ins: "Insert coarse_mathlib (\<lambda>s b. s) (\<lambda>i j. 1) (KStr ''key1'') (1::int)
        \<lparr>capacity = 3, delta = f64_lit (1 / 10), items = 0, levels = [[]],
         occupanciesByLevel = [0], c = Fin 4\<rparr>
     = Ret (Some FailedToInsertErr,
        \<lparr>capacity = 3, delta = f64_lit (1 / 10), items = 0, levels = [[]],
         occupanciesByLevel = [0], c = Fin 4\<rparr>)"
    by (rule Insert_single_empty_level)
  from Insert_failure_atomic [OF ins] ins show ?thesis by simp
qed

end
